theory Spec2Isabelle
  imports Main
begin

section \<open>The domain error of \<^verbatim>\<open>appsexception.py\<close>\<close>

text \<open>
  \<^verbatim>\<open>class PhylipMissingData(Exception)\<close> has two attributes of its own, \<^verbatim>\<open>input_dir\<close> and
  \<^verbatim>\<open>message\<close>; the call \<^verbatim>\<open>super().__init__(self.message)\<close> stores the message as the only
  element of the inherited \<^verbatim>\<open>args\<close>. Both attributes are modelled as strings.
\<close>

record PhylipMissingData =
  input_dir :: string
  message :: string
  args :: "string list"

text \<open>The default value of the keyword parameter \<^verbatim>\<open>message\<close> of \<^verbatim>\<open>__init__\<close>.\<close>

definition default_message :: string where
  "default_message = ''Unable to find a tar file with the nexus data.''"

text \<open>
  \<^verbatim>\<open>__init__(self, input_dir, message=...)\<close>: an omitted \<^verbatim>\<open>message\<close> argument is \<open>None\<close>
  here and is replaced by the default.
\<close>

definition PhylipMissingData_init :: "string \<Rightarrow> string option \<Rightarrow> PhylipMissingData" where
  "PhylipMissingData_init dir msg =
     (let m = (case msg of None \<Rightarrow> default_message | Some s \<Rightarrow> s)
      in \<lparr>input_dir = dir, message = m, args = [m]\<rparr>)"

text \<open>\<^verbatim>\<open>__str__\<close>: the f-string \<^verbatim>\<open>f'{self.input_dir} -> {self.message}'\<close>.\<close>

definition PhylipMissingData_str :: "PhylipMissingData \<Rightarrow> string" where
  "PhylipMissingData_str e = input_dir e @ '' -> '' @ message e"


section \<open>The configuration builder of \<^verbatim>\<open>workflow.py\<close>\<close>

subsection \<open>The objects of the workflow library that the builder constructs\<close>

text \<open>
  Each constructor call of the source is a record holding the keyword arguments that the
  call passes. \<^verbatim>\<open>scheduler_options\<close> is passed for the fourth pool only, so it is optional.
\<close>

record SrunLauncher =
  overrides :: string

record SlurmProvider =
  partition' :: string
  scheduler_options :: "string option"
  parallelism :: int
  init_blocks :: int
  max_blocks :: int
  nodes_per_block :: int
  cmd_timeout :: int
  worker_init :: string
  move_files :: bool
  walltime :: string
  launcher :: SrunLauncher

record HighThroughputExecutor =
  label :: string
  address :: string
  max_workers :: int
  cores_per_worker :: int
  worker_debug :: bool
  interchange_port_range :: "int \<times> int"
  provider :: SlurmProvider

record MonitoringHub =
  workflow_name :: string
  hub_address :: string
  hub_port :: int
  resource_monitoring_enabled :: bool
  monitoring_debug :: bool
  resource_monitoring_interval :: int

record Config =
  executors :: "HighThroughputExecutor list"
  monitoring :: "MonitoringHub option"
  strategy :: "string option"

subsection \<open>The surroundings: files and network interfaces\<close>

text \<open>
  The builder opens a log file, reads a file and asks for the address of a network
  interface. The machine it runs on is a record of the text files that can be opened for
  reading (name to contents, as \<^verbatim>\<open>read()\<close> returns them), of the interfaces that have an
  address, and of the paths that cannot be opened for appending, each with the exception
  that the attempt raises.
\<close>

datatype py_error = FileNotFoundError | OSError | IndexError | ValueError | OverflowError

record machine =
  files :: "string \<rightharpoonup> string"
  interfaces :: "string \<rightharpoonup> string"
  append_error :: "string \<rightharpoonup> py_error"

text \<open>
  \<^verbatim>\<open>parsl.set_file_logger(filename, level=...)\<close> attaches a file handler to the logger of the
  library, which opens \<^verbatim>\<open>filename\<close> for appending.
\<close>

definition set_file_logger :: "machine \<Rightarrow> string \<Rightarrow> py_error + unit" where
  "set_file_logger m filename =
     (case append_error m filename of Some e \<Rightarrow> Inl e | None \<Rightarrow> Inr ())"

text \<open>\<^verbatim>\<open>with open(path, 'r') as reader: reader.read()\<close>\<close>

definition read_file :: "machine \<Rightarrow> string \<Rightarrow> py_error + string" where
  "read_file m path = (case files m path of None \<Rightarrow> Inl FileNotFoundError | Some s \<Rightarrow> Inr s)"

text \<open>\<^verbatim>\<open>address_by_interface(ifname)\<close> of the workflow library.\<close>

definition address_by_interface :: "machine \<Rightarrow> string \<Rightarrow> py_error + string" where
  "address_by_interface m ifname =
     (case interfaces m ifname of None \<Rightarrow> Inl OSError | Some a \<Rightarrow> Inr a)"

text \<open>
  \<^verbatim>\<open>xs[i]\<close> for the literal indices \<open>0\<close> to \<open>3\<close> of the source: a list that is too short
  raises \<^verbatim>\<open>IndexError\<close>.
\<close>

definition item :: "'a list \<Rightarrow> nat \<Rightarrow> py_error + 'a" where
  "item xs i = (if i < length xs then Inr (xs ! i) else Inl IndexError)"

subsection \<open>Decimal text of an integer, for the f-strings\<close>

fun digit_char :: "nat \<Rightarrow> char" where
  "digit_char n = char_of (48 + n)"

function str_nat :: "nat \<Rightarrow> string" where
  "str_nat n = (if n < 10 then [digit_char n] else str_nat (n div 10) @ [digit_char (n mod 10)])"
  by pat_completeness auto
termination
  by (relation "measure id") auto

definition str_int :: "int \<Rightarrow> string" where
  "str_int i = (if i < 0 then CHR ''-'' # str_nat (nat (- i)) else str_nat (nat i))"

subsection \<open>\<^verbatim>\<open>workflow_config\<close>\<close>

text \<open>
  One \<^verbatim>\<open>HighThroughputExecutor(...)\<close> call of the source. The four calls differ in the
  label, the cores per worker, the port range, the presence of \<^verbatim>\<open>scheduler_options\<close> and
  the list index \<open>i\<close>; these are the parameters. The keyword arguments are evaluated in the
  order in which the source writes them, and the first failure is the result.
\<close>

definition htex ::
  "machine \<Rightarrow> string \<Rightarrow> int \<Rightarrow> int \<times> int \<Rightarrow> string option \<Rightarrow> nat \<Rightarrow>
   string list \<Rightarrow> int list \<Rightarrow> int list \<Rightarrow> string list \<Rightarrow> string \<Rightarrow>
   py_error + HighThroughputExecutor" where
  "htex m lbl cpw ports sched i partition_l nodes cores_per_node walltime_l env_str =
     (case address_by_interface m ''ib0'' of Inl e \<Rightarrow> Inl e | Inr addr \<Rightarrow>
      case item cores_per_node i of Inl e \<Rightarrow> Inl e | Inr workers \<Rightarrow>
      case item partition_l i of Inl e \<Rightarrow> Inl e | Inr part \<Rightarrow>
      case item nodes i of Inl e \<Rightarrow> Inl e | Inr npb \<Rightarrow>
      case item walltime_l i of Inl e \<Rightarrow> Inl e | Inr wt \<Rightarrow>
      case item cores_per_node i of Inl e \<Rightarrow> Inl e | Inr c \<Rightarrow>
        Inr \<lparr>label = lbl,
             address = addr,
             max_workers = workers,
             cores_per_worker = cpw,
             worker_debug = False,
             interchange_port_range = ports,
             provider = \<lparr>partition' = part,
                         scheduler_options = sched,
                         parallelism = 1,
                         init_blocks = 1,
                         max_blocks = 1,
                         nodes_per_block = npb,
                         cmd_timeout = 120,
                         worker_init = env_str,
                         move_files = False,
                         walltime = wt,
                         launcher = \<lparr>overrides = ''-c '' @ str_int c\<rparr>\<rparr>\<rparr>)"

text \<open>
  The conditional expression \<^verbatim>\<open>MonitoringHub(...) if monitor else None\<close>: the constructor and
  its arguments are evaluated only when \<^verbatim>\<open>monitor\<close> holds.
\<close>

definition mon_hub :: "machine \<Rightarrow> string \<Rightarrow> int \<Rightarrow> bool \<Rightarrow> py_error + MonitoringHub option" where
  "mon_hub m name interval monitor =
     (if monitor then
        (case address_by_interface m ''ib0'' of Inl e \<Rightarrow> Inl e | Inr addr \<Rightarrow>
           Inr (Some \<lparr>workflow_name = name,
                      hub_address = addr,
                      hub_port = 60001,
                      resource_monitoring_enabled = True,
                      monitoring_debug = False,
                      resource_monitoring_interval = interval\<rparr>))
      else Inr None)"

text \<open>
  \<^verbatim>\<open>workflow_config(name, partition, nodes, cores_per_node, walltime, interval, monitor)\<close>.
  The first step that can fail is \<^verbatim>\<open>parsl.set_file_logger(f'{name}_script.output', ...)\<close>.
  The call of \<^verbatim>\<open>set_stream_logger\<close> before it and the two \<^verbatim>\<open>logging.info\<close> lines write to
  streams that are open already; they do not contribute to the returned object and are
  left out.
\<close>

definition workflow_config ::
  "machine \<Rightarrow> string \<Rightarrow> string list \<Rightarrow> int list \<Rightarrow> int list \<Rightarrow> string list \<Rightarrow> int \<Rightarrow> bool \<Rightarrow>
   py_error + Config" where
  "workflow_config m name partition_l nodes cores_per_node walltime_l interval monitor =
     (case set_file_logger m (name @ ''_script.output'') of Inl e \<Rightarrow> Inl e | Inr _ \<Rightarrow>
      case read_file m ''parsl.env'' of Inl e \<Rightarrow> Inl e | Inr env_str \<Rightarrow>
      case mon_hub m name interval monitor of Inl e \<Rightarrow> Inl e | Inr hub \<Rightarrow>
      case htex m ''single_thread'' 1 (50000, 55000) None 0
             partition_l nodes cores_per_node walltime_l env_str of Inl e \<Rightarrow> Inl e | Inr e0 \<Rightarrow>
      case htex m ''raxml'' 6 (55000, 60000) None 1
             partition_l nodes cores_per_node walltime_l env_str of Inl e \<Rightarrow> Inl e | Inr e1 \<Rightarrow>
      case htex m ''snaq'' 6 (40000, 45000) None 2
             partition_l nodes cores_per_node walltime_l env_str of Inl e \<Rightarrow> Inl e | Inr e2 \<Rightarrow>
      case htex m ''snaq_l'' 6 (45000, 50000) (Some []) 3
             partition_l nodes cores_per_node walltime_l env_str of Inl e \<Rightarrow> Inl e | Inr e3 \<Rightarrow>
        Inr \<lparr>executors = [e0, e1, e2, e3], monitoring = hub, strategy = None\<rparr>)"

text \<open>The default arguments of the source.\<close>

definition default_partition :: "string list" where
  "default_partition = [''sequana_cpu'', ''sequana_cpu'', ''sequana_cpu'', ''sequana_cpu_long'']"

definition default_nodes :: "int list" where
  "default_nodes = [1, 4, 1, 1]"

definition default_cores_per_node :: "int list" where
  "default_cores_per_node = [48, 48, 48, 48]"

definition default_walltime :: "string list" where
  "default_walltime = [''03:00:00'', ''04:00:00'', ''06:00:00'', ''06:00:00'']"


section \<open>The synchronisation routine of \<^verbatim>\<open>workflow.py\<close>\<close>

subsection \<open>Task handles\<close>

text \<open>
  A task handle is an object of the workflow library. The routine calls two methods on
  it, \<^verbatim>\<open>done()\<close> and \<^verbatim>\<open>result()\<close>. What \<^verbatim>\<open>done()\<close> answers depends on how far the task has
  got when it is asked; the loop asks a handle at most once per polling cycle, so a handle
  is described by its answers per cycle: \<open>done_at r k\<close> is what \<^verbatim>\<open>r.done()\<close> answers during
  cycle \<open>k\<close>, cycles counted from \<open>0\<close>. Nothing is assumed about these answers; where a
  property needs a flag that stays true once it is true, it says so. \<open>stored r\<close> is the
  exception that the task recorded, if any, which \<^verbatim>\<open>r.result()\<close> raises again. The value
  that \<^verbatim>\<open>result()\<close> returns otherwise is discarded by the routine and is not modelled.
\<close>

record 'e future =
  done_at :: "nat \<Rightarrow> bool"
  stored :: "'e option"

text \<open>
  \<^verbatim>\<open>time.sleep(secs)\<close>, as CPython does it on 64-bit Linux: a negative argument is rejected
  with \<^verbatim>\<open>ValueError\<close>; an argument of 9223372037 seconds or more does not fit the 64-bit
  count of nanoseconds and is rejected with \<^verbatim>\<open>OverflowError\<close>; below that, the operating
  system rejects, with \<^verbatim>\<open>OSError\<close>, a sleep that would end beyond the range of its clock.
  \<open>os_limit\<close> is the longest sleep that the operating system accepts at the time of the
  call: about 9223372036 seconds less the reading of the monotonic clock, so never more
  than 9223372035.
\<close>

definition sleep :: "int \<Rightarrow> int \<Rightarrow> py_error + unit" where
  "sleep os_limit secs =
     (if secs < 0 then Inl ValueError
      else if 9223372037 \<le> secs then Inl OverflowError
      else if min os_limit 9223372035 < secs then Inl OSError
      else Inr ())"

text \<open>
  The exceptions that can leave the routine: one that \<^verbatim>\<open>time.sleep\<close> raised, or the stored
  exception of a task, which \<^verbatim>\<open>result()\<close> raises.
\<close>

datatype 'e wait_error = SleepError py_error | TaskError 'e

text \<open>
  What the routine does to the outside, in the order in which it does it: a call of
  \<^verbatim>\<open>done()\<close> with its answer, a completed \<^verbatim>\<open>time.sleep\<close> with its argument, a call of
  \<^verbatim>\<open>result()\<close>.
\<close>

datatype 'e event = Done "'e future" bool | Sleep int | Result "'e future"

text \<open>\<^verbatim>\<open>r.result()\<close>\<close>

definition result :: "'e future \<Rightarrow> 'e wait_error + unit" where
  "result r = (case stored r of Some e \<Rightarrow> Inl (TaskError e) | None \<Rightarrow> Inr ())"

subsection \<open>\<^verbatim>\<open>wait_for_all\<close>\<close>

text \<open>
  The inner loop of cycle \<open>k\<close>, entered with \<^verbatim>\<open>not_done = False\<close>:
  \<^verbatim>\<open>
    for r in list_of_futures:
        if not r.done():
            not_done = True
            break
  \<close>
  It returns the flag and the calls it made.
\<close>

fun poll :: "'e future list \<Rightarrow> nat \<Rightarrow> bool \<times> 'e event list" where
  "poll [] k = (False, [])"
| "poll (r # rs) k =
     (if \<not> done_at r k then (True, [Done r False])
      else (case poll rs k of (not_done, evs) \<Rightarrow> (not_done, Done r True # evs)))"

text \<open>
  The outer loop, from its test onwards, in cycle \<open>k\<close> with the events \<open>tr\<close> so far:
  \<^verbatim>\<open>
    while not_done:
        not_done = False
        for r in list_of_futures: ...
        time.sleep(sleep_interval)
  \<close>
  The clock advances while the loop runs, so the longest sleep that the operating system
  accepts is given per cycle: \<open>os_limit k\<close> in cycle \<open>k\<close>. The loop need not end: \<open>None\<close> is
  a run that polls forever.
\<close>

partial_function (option) while_not_done ::
  "(nat \<Rightarrow> int) \<Rightarrow> 'e future list \<Rightarrow> int \<Rightarrow> bool \<Rightarrow> nat \<Rightarrow> 'e event list \<Rightarrow>
   (('e wait_error + unit) \<times> 'e event list) option" where
  "while_not_done os_limit list_of_futures sleep_interval not_done k tr =
     (if not_done then
        (case poll list_of_futures k of (not_done', evs) \<Rightarrow>
           (case sleep (os_limit k) sleep_interval of
              Inl err \<Rightarrow> Some (Inl (SleepError err), tr @ evs)
            | Inr _ \<Rightarrow> while_not_done os_limit list_of_futures sleep_interval not_done' (Suc k)
                        (tr @ evs @ [Sleep sleep_interval])))
      else Some (Inr (), tr))"

declare while_not_done.simps [code]

text \<open>
  The collection pass:
  \<^verbatim>\<open>
    for r in list_of_futures:
        r.result()
  \<close>
\<close>

fun fetch :: "'e future list \<Rightarrow> 'e event list \<Rightarrow> ('e wait_error + unit) \<times> 'e event list" where
  "fetch [] tr = (Inr (), tr)"
| "fetch (r # rs) tr =
     (case result r of
        Inl err \<Rightarrow> (Inl err, tr @ [Result r])
      | Inr _ \<Rightarrow> fetch rs (tr @ [Result r]))"

text \<open>
  \<^verbatim>\<open>wait_for_all(list_of_futures, sleep_interval)\<close>: the loop is entered with
  \<^verbatim>\<open>not_done = True\<close>. A run that ends gives its outcome (\<open>Inr ()\<close> for the plain
  \<^verbatim>\<open>return\<close>, \<open>Inl\<close> for an exception that leaves the routine) and its events.
\<close>

definition wait_for_all ::
  "(nat \<Rightarrow> int) \<Rightarrow> 'e future list \<Rightarrow> int \<Rightarrow>
   (('e wait_error + unit) \<times> 'e event list) option" where
  "wait_for_all os_limit list_of_futures sleep_interval =
     (case while_not_done os_limit list_of_futures sleep_interval True 0 [] of
        None \<Rightarrow> None
      | Some (Inl err, tr) \<Rightarrow> Some (Inl err, tr)
      | Some (Inr _, tr) \<Rightarrow> Some (fetch list_of_futures tr))"

subsection \<open>Notions for describing runs\<close>

text \<open>
  The handles that the inner loop asks in cycle \<open>k\<close>: those ahead of the first one that
  is not done, and that one.
\<close>

definition checked :: "'e future list \<Rightarrow> nat \<Rightarrow> 'e future list" where
  "checked fs k = takeWhile (\<lambda>r. done_at r k) fs @ take 1 (dropWhile (\<lambda>r. done_at r k) fs)"

text \<open>The events of the cycles \<open>k\<close> up to, and without, \<open>n\<close>, each ending with its sleep.\<close>

definition polling :: "'e future list \<Rightarrow> int \<Rightarrow> nat \<Rightarrow> nat \<Rightarrow> 'e event list" where
  "polling fs si k n = concat (map (\<lambda>j. snd (poll fs j) @ [Sleep si]) [k..<n])"

text \<open>An event in which an exception of a task comes up.\<close>

fun raising :: "'e event \<Rightarrow> bool" where
  "raising (Result r) = (stored r \<noteq> None)"
| "raising _ = False"

text \<open>
  Handles for the examples: a task that is complete from cycle \<open>c\<close> on, with or without a
  stored exception; a task that never completes; a handle whose flag is true in cycle \<open>c\<close>
  only. And a clock range for the examples: the same limit in every cycle.
\<close>

definition completes_at :: "nat \<Rightarrow> 'e option \<Rightarrow> 'e future" where
  "completes_at c e = \<lparr>done_at = (\<lambda>k. c \<le> k), stored = e\<rparr>"



definition steady :: "int \<Rightarrow> nat \<Rightarrow> int" where
  "steady limit k = limit"


section \<open>Properties of the domain error\<close>

text \<open>
  C7. For every input directory and message, the textual form of the error is the input
  directory, then the literal \<open>'' -> ''\<close>, then the message; with the message omitted, the
  message is the default one.
\<close>

theorem PhylipMissingData_str_format:
  "PhylipMissingData_str (PhylipMissingData_init dir (Some msg)) = dir @ '' -> '' @ msg \<and>
   PhylipMissingData_str (PhylipMissingData_init dir None) =
     dir @ '' -> Unable to find a tar file with the nexus data.''"
  by (simp add: PhylipMissingData_str_def PhylipMissingData_init_def default_message_def Let_def)

text \<open>
  C10. Constructed from an input directory alone, the error carries the default message
  and the given directory.
\<close>

theorem PhylipMissingData_default_message:
  "message (PhylipMissingData_init dir None) = ''Unable to find a tar file with the nexus data.''
   \<and> input_dir (PhylipMissingData_init dir None) = dir"
  by (simp add: PhylipMissingData_init_def default_message_def Let_def)


section \<open>Properties of the configuration builder\<close>

lemma htex_ok:
  assumes "interfaces m ''ib0'' = Some a" "i < length P" "i < length N" "i < length C" "i < length W"
  shows "htex m lbl cpw ports sched i P N C W s =
     Inr \<lparr>label = lbl, address = a, max_workers = C ! i, cores_per_worker = cpw,
          worker_debug = False, interchange_port_range = ports,
          provider = \<lparr>partition' = P ! i, scheduler_options = sched, parallelism = 1,
                      init_blocks = 1, max_blocks = 1, nodes_per_block = N ! i,
                      cmd_timeout = 120, worker_init = s, move_files = False,
                      walltime = W ! i,
                      launcher = \<lparr>overrides = ''-c '' @ str_int (C ! i)\<rparr>\<rparr>\<rparr>"
  using assms by (simp add: htex_def address_by_interface_def item_def)

lemma htex_Inr:
  assumes "htex m lbl cpw ports sched i P N C W s = Inr e"
  shows "partition' (provider e) = P ! i \<and> nodes_per_block (provider e) = N ! i \<and>
         max_workers e = C ! i \<and> walltime (provider e) = W ! i \<and>
         worker_init (provider e) = s \<and> label e = lbl"
  using assms
  by (auto simp: htex_def item_def split: sum.splits if_splits)

lemma mon_hub_Inr:
  assumes "mon_hub m name interval monitor = Inr hub"
  shows "(hub \<noteq> None) = monitor"
    and "hub = Some h \<Longrightarrow> resource_monitoring_interval h = interval"
  using assms by (auto simp: mon_hub_def split: if_splits sum.splits)

lemma workflow_config_Inr:
  assumes "workflow_config m name P N C W interval monitor = Inr cfg"
  shows "\<exists>s hub e0 e1 e2 e3.
           set_file_logger m (name @ ''_script.output'') = Inr () \<and>
           read_file m ''parsl.env'' = Inr s \<and>
           mon_hub m name interval monitor = Inr hub \<and>
           htex m ''single_thread'' 1 (50000, 55000) None 0 P N C W s = Inr e0 \<and>
           htex m ''raxml'' 6 (55000, 60000) None 1 P N C W s = Inr e1 \<and>
           htex m ''snaq'' 6 (40000, 45000) None 2 P N C W s = Inr e2 \<and>
           htex m ''snaq_l'' 6 (45000, 50000) (Some []) 3 P N C W s = Inr e3 \<and>
           cfg = \<lparr>executors = [e0, e1, e2, e3], monitoring = hub, strategy = None\<rparr>"
  using assms unfolding workflow_config_def
  by (simp split: sum.splits)

lemma workflow_config_ok:
  assumes "append_error m (name @ ''_script.output'') = None"
    and "files m ''parsl.env'' = Some s" "interfaces m ''ib0'' = Some a"
    and "4 \<le> length P" "4 \<le> length N" "4 \<le> length C" "4 \<le> length W"
  shows "\<exists>cfg. workflow_config m name P N C W interval monitor = Inr cfg"
proof -
  have lg: "set_file_logger m (name @ ''_script.output'') = Inr ()"
    using assms(1) by (simp add: set_file_logger_def)
  have rd: "read_file m ''parsl.env'' = Inr s"
    using assms(2) by (simp add: read_file_def)
  obtain hub where hub: "mon_hub m name interval monitor = Inr hub"
    using assms(3) by (cases monitor) (simp_all add: mon_hub_def address_by_interface_def)
  have ex: "\<exists>e. htex m lbl cpw ports sched i P N C W s = Inr e" if "i < 4"
    for lbl cpw ports sched i
    using that assms(3-7) by (simp add: htex_ok)
  obtain e0 where e0: "htex m ''single_thread'' 1 (50000, 55000) None 0 P N C W s = Inr e0"
    using ex[of 0 "''single_thread''" 1 "(50000, 55000)" None] by auto
  obtain e1 where e1: "htex m ''raxml'' 6 (55000, 60000) None 1 P N C W s = Inr e1"
    using ex[of 1 "''raxml''" 6 "(55000, 60000)" None] by auto
  obtain e2 where e2: "htex m ''snaq'' 6 (40000, 45000) None 2 P N C W s = Inr e2"
    using ex[of 2 "''snaq''" 6 "(40000, 45000)" None] by auto
  obtain e3 where e3: "htex m ''snaq_l'' 6 (45000, 50000) (Some []) 3 P N C W s = Inr e3"
    using ex[of 3 "''snaq_l''" 6 "(45000, 50000)" "Some []"] by auto
  have "workflow_config m name P N C W interval monitor =
          Inr \<lparr>executors = [e0, e1, e2, e3], monitoring = hub, strategy = None\<rparr>"
    by (simp only: workflow_config_def lg rd hub e0 e1 e2 e3 sum.case)
  then show ?thesis ..
qed

lemma workflow_config_log_failure:
  "append_error m (name @ ''_script.output'') = Some e \<Longrightarrow>
   workflow_config m name P N C W interval monitor = Inl e"
  by (simp add: workflow_config_def set_file_logger_def)




text \<open>
  C4. In a configuration that the builder returns, a monitoring hub is attached exactly
  when the \<^verbatim>\<open>monitor\<close> flag is true, and an attached hub samples at the given interval.
\<close>

theorem workflow_config_monitoring:
  assumes "workflow_config m name P N C W interval monitor = Inr cfg"
  shows "(monitoring cfg \<noteq> None) = monitor \<and>
         (\<forall>hub. monitoring cfg = Some hub \<longrightarrow> resource_monitoring_interval hub = interval)"
proof -
  from workflow_config_Inr[OF assms] obtain hub e0 e1 e2 e3 where
    hub: "mon_hub m name interval monitor = Inr hub" and
    cfg: "cfg = \<lparr>executors = [e0, e1, e2, e3], monitoring = hub, strategy = None\<rparr>"
    by blast
  show ?thesis
    using mon_hub_Inr[OF hub] by (simp add: cfg)
qed

theorem workflow_config_monitoring_witness:
  "\<exists>cfg hub. workflow_config
            \<lparr>files = [''parsl.env'' \<mapsto> ''module load raxml''],
             interfaces = [''ib0'' \<mapsto> ''10.0.0.1''],
             append_error = Map.empty\<rparr>
            ''phylo'' default_partition default_nodes default_cores_per_node default_walltime
            45 True = Inr cfg \<and>
         monitoring cfg = Some hub \<and> resource_monitoring_interval hub = 45"
proof -
  let ?m = "\<lparr>files = [''parsl.env'' \<mapsto> ''module load raxml''],
             interfaces = [''ib0'' \<mapsto> ''10.0.0.1''],
             append_error = Map.empty\<rparr>"
  have "\<exists>cfg. workflow_config ?m ''phylo'' default_partition default_nodes
          default_cores_per_node default_walltime 45 True = Inr cfg"
    by (rule workflow_config_ok[where s = "''module load raxml''" and a = "''10.0.0.1''"])
      (simp_all add: default_partition_def default_nodes_def default_cores_per_node_def
        default_walltime_def)
  then obtain cfg where
    run: "workflow_config ?m ''phylo'' default_partition default_nodes default_cores_per_node
            default_walltime 45 True = Inr cfg" ..
  from workflow_config_monitoring[OF run] show ?thesis
    using run by auto
qed

text \<open>
  C8. A configuration is returned only when the file \<^verbatim>\<open>parsl.env\<close> could be read, and
  then the whole text read from it is, unchanged, the \<^verbatim>\<open>worker_init\<close> script of each of
  the four executor entries.
\<close>

theorem workflow_config_worker_init:
  assumes "workflow_config m name P N C W interval monitor = Inr cfg"
  shows "\<exists>s. files m ''parsl.env'' = Some s \<and>
             map (\<lambda>e. worker_init (provider e)) (executors cfg) = [s, s, s, s]"
proof -
  from workflow_config_Inr[OF assms] obtain s hub e0 e1 e2 e3 where
    rd: "read_file m ''parsl.env'' = Inr s" and
    e0: "htex m ''single_thread'' 1 (50000, 55000) None 0 P N C W s = Inr e0" and
    e1: "htex m ''raxml'' 6 (55000, 60000) None 1 P N C W s = Inr e1" and
    e2: "htex m ''snaq'' 6 (40000, 45000) None 2 P N C W s = Inr e2" and
    e3: "htex m ''snaq_l'' 6 (45000, 50000) (Some []) 3 P N C W s = Inr e3" and
    cfg: "cfg = \<lparr>executors = [e0, e1, e2, e3], monitoring = hub, strategy = None\<rparr>"
    by blast
  have "files m ''parsl.env'' = Some s"
    using rd by (simp add: read_file_def split: option.splits)
  moreover have "map (\<lambda>e. worker_init (provider e)) (executors cfg) = [s, s, s, s]"
    using htex_Inr[OF e0] htex_Inr[OF e1] htex_Inr[OF e2] htex_Inr[OF e3] by (simp add: cfg)
  ultimately show ?thesis
    by (intro exI[of _ s] conjI)
qed

theorem workflow_config_worker_init_witness:
  "\<exists>cfg. workflow_config
            \<lparr>files = [''parsl.env'' \<mapsto> ''module load raxml''],
             interfaces = [''ib0'' \<mapsto> ''10.0.0.1''],
             append_error = Map.empty\<rparr>
            ''phylo'' default_partition default_nodes default_cores_per_node default_walltime
            30 False = Inr cfg \<and>
         map (\<lambda>e. worker_init (provider e)) (executors cfg) =
           [''module load raxml'', ''module load raxml'', ''module load raxml'',
            ''module load raxml'']"
proof -
  let ?m = "\<lparr>files = [''parsl.env'' \<mapsto> ''module load raxml''],
             interfaces = [''ib0'' \<mapsto> ''10.0.0.1''],
             append_error = Map.empty\<rparr>"
  have "\<exists>cfg. workflow_config ?m ''phylo'' default_partition default_nodes
          default_cores_per_node default_walltime 30 False = Inr cfg"
    by (rule workflow_config_ok[where s = "''module load raxml''" and a = "''10.0.0.1''"])
      (simp_all add: default_partition_def default_nodes_def default_cores_per_node_def
        default_walltime_def)
  then obtain cfg where
    run: "workflow_config ?m ''phylo'' default_partition default_nodes default_cores_per_node
            default_walltime 30 False = Inr cfg" ..
  from workflow_config_worker_init[OF run] show ?thesis
    using run by auto
qed


section \<open>Properties of the synchronisation routine\<close>

subsection \<open>Sleeping\<close>

lemma sleep_accepts:
  "(sleep os_limit secs = Inr ()) = (0 \<le> secs \<and> secs \<le> os_limit \<and> secs \<le> 9223372035)"
  by (auto simp: sleep_def)

lemma sleep_cases: "sleep os_limit secs = Inr () \<or> (\<exists>err. sleep os_limit secs = Inl err)"
  by (cases "sleep os_limit secs") auto

subsection \<open>One polling cycle\<close>

lemma poll_fst: "fst (poll fs k) = (\<exists>r\<in>set fs. \<not> done_at r k)"
  by (induction fs) (auto split: prod.splits)

lemma poll_snd: "snd (poll fs k) = map (\<lambda>r. Done r (done_at r k)) (checked fs k)"
  by (induction fs) (auto simp: checked_def split: prod.splits)

lemma checked_all_done: "\<forall>r\<in>set fs. done_at r k \<Longrightarrow> checked fs k = fs"
  by (simp add: checked_def takeWhile_eq_all_conv[THEN iffD2] dropWhile_eq_Nil_conv[THEN iffD2])


lemma poll_all_done:
  "\<forall>r\<in>set fs. done_at r k \<Longrightarrow> snd (poll fs k) = map (\<lambda>r. Done r True) fs"
  by (simp add: poll_snd checked_all_done)

lemma poll_no_Result: "ev \<in> set (snd (poll fs k)) \<Longrightarrow> ev \<noteq> Result x"
  by (auto simp: poll_snd)

lemma polling_Cons:
  "k < n \<Longrightarrow> polling fs si k n = snd (poll fs k) @ [Sleep si] @ polling fs si (Suc k) n"
  by (simp add: polling_def upt_conv_Cons)

lemma polling_snoc:
  "k \<le> n \<Longrightarrow> polling fs si k (Suc n) = polling fs si k n @ snd (poll fs n) @ [Sleep si]"
  by (simp add: polling_def)

lemma polling_last_cycle:
  assumes "\<forall>r\<in>set fs. done_at r n"
  shows "polling fs si 0 (Suc n) = polling fs si 0 n @ map (\<lambda>r. Done r True) fs @ [Sleep si]"
  using assms by (simp add: polling_snoc poll_all_done)


lemma polling_events:
  "ev \<in> set (polling fs si k n) \<Longrightarrow> (\<exists>r b. ev = Done r b) \<or> ev = Sleep si"
  by (auto simp: polling_def poll_snd split: if_splits)

lemma polling_not_raising: "filter raising (polling fs si k n) = []"
  by (auto simp: filter_empty_conv dest!: polling_events)

lemma polling_no_Result: "ev \<in> set (polling fs si k n) \<Longrightarrow> ev \<noteq> Result x"
  using polling_events[of ev fs si k n] by auto

subsection \<open>The polling loop\<close>

lemma while_False: "while_not_done L fs si False k tr = Some (Inr (), tr)"
  by (subst while_not_done.simps) simp


lemma while_True_step:
  "sleep (L k) si = Inr () \<Longrightarrow> while_not_done L fs si True k tr =
     while_not_done L fs si (\<exists>r\<in>set fs. \<not> done_at r k) (Suc k)
       (tr @ snd (poll fs k) @ [Sleep si])"
  by (subst while_not_done.simps) (simp add: poll_fst[symmetric] split: prod.splits)

text \<open>
  With a cycle \<open>n\<close> in which every handle is done and none before it from \<open>k\<close> on, and with
  every sleep from cycle \<open>k\<close> to cycle \<open>n\<close> accepted, the loop started in cycle \<open>k\<close> ends
  after cycle \<open>n\<close>.
\<close>

lemma while_runs:
  assumes "\<forall>j. k \<le> j \<and> j \<le> n \<longrightarrow> sleep (L j) si = Inr ()" "\<forall>r\<in>set fs. done_at r n"
    and "\<forall>j. k \<le> j \<and> j < n \<longrightarrow> (\<exists>r\<in>set fs. \<not> done_at r j)" "k \<le> n"
  shows "while_not_done L fs si True k tr = Some (Inr (), tr @ polling fs si k (Suc n))"
  using assms(1,3,4)
proof (induction "n - k" arbitrary: k tr)
  case 0
  then have "k = n" by simp
  then show ?case
    using assms(2) 0 by (simp add: while_True_step while_False polling_def)
next
  case (Suc d)
  then have lt: "k < n" by simp
  with Suc.prems have nd: "\<exists>r\<in>set fs. \<not> done_at r k" by simp
  from Suc.prems lt have ok: "sleep (L k) si = Inr ()" by simp
  have "while_not_done L fs si True (Suc k) (tr @ snd (poll fs k) @ [Sleep si]) =
          Some (Inr (), (tr @ snd (poll fs k) @ [Sleep si]) @ polling fs si (Suc k) (Suc n))"
    using Suc.hyps(2) Suc.prems lt by (intro Suc.hyps(1)) auto
  then show ?case
    using ok nd lt by (simp add: while_True_step polling_Cons)
qed

text \<open>
  What a loop that ends has done: either a sleep was rejected in some cycle \<open>j\<close>, after
  the inner loop of that cycle, or the loop has run up to the first cycle in which every
  handle was done, with every sleep accepted.
\<close>

lemma while_Some_shape:
  assumes "while_not_done L fs si nd k tr = Some y"
  shows "(\<not> nd \<longrightarrow> y = (Inr (), tr)) \<and>
         (nd \<longrightarrow>
            (\<exists>err j. k \<le> j \<and> sleep (L j) si = Inl err \<and>
               y = (Inl (SleepError err), tr @ polling fs si k j @ snd (poll fs j))) \<or>
            (\<exists>n\<ge>k. (\<forall>r\<in>set fs. done_at r n) \<and>
               (\<forall>j. k \<le> j \<and> j < n \<longrightarrow> (\<exists>r\<in>set fs. \<not> done_at r j)) \<and>
               (\<forall>j. k \<le> j \<and> j \<le> n \<longrightarrow> sleep (L j) si = Inr ()) \<and>
               y = (Inr (), tr @ polling fs si k (Suc n))))"
proof (rule while_not_done.raw_induct
    [where P = "\<lambda>L fs si nd k tr y. (\<not> nd \<longrightarrow> y = (Inr (), tr)) \<and>
         (nd \<longrightarrow>
            (\<exists>err j. k \<le> j \<and> sleep (L j) si = Inl err \<and>
               y = (Inl (SleepError err), tr @ polling fs si k j @ snd (poll fs j))) \<or>
            (\<exists>n\<ge>k. (\<forall>r\<in>set fs. done_at r n) \<and>
               (\<forall>j. k \<le> j \<and> j < n \<longrightarrow> (\<exists>r\<in>set fs. \<not> done_at r j)) \<and>
               (\<forall>j. k \<le> j \<and> j \<le> n \<longrightarrow> sleep (L j) si = Inr ()) \<and>
               y = (Inr (), tr @ polling fs si k (Suc n))))", OF _ assms])
  fix rec :: "(nat \<Rightarrow> int) \<Rightarrow> 'a future list \<Rightarrow> int \<Rightarrow> bool \<Rightarrow> nat \<Rightarrow> 'a event list \<Rightarrow>
              (('a wait_error + unit) \<times> 'a event list) option"
  fix L :: "nat \<Rightarrow> int" and fs :: "'a future list" and si :: int and nd :: bool and k :: nat
    and tr :: "'a event list" and y :: "('a wait_error + unit) \<times> 'a event list"
  let ?Rej = "\<lambda>k tr y. \<exists>err j. k \<le> j \<and> sleep (L j) si = Inl err \<and>
               y = (Inl (SleepError err), tr @ polling fs si k j @ snd (poll fs j))"
  let ?Fin = "\<lambda>k tr y. \<exists>n\<ge>k. (\<forall>r\<in>set fs. done_at r n) \<and>
               (\<forall>j. k \<le> j \<and> j < n \<longrightarrow> (\<exists>r\<in>set fs. \<not> done_at r j)) \<and>
               (\<forall>j. k \<le> j \<and> j \<le> n \<longrightarrow> sleep (L j) si = Inr ()) \<and>
               y = (Inr (), tr @ polling fs si k (Suc n))"
  assume IH: "\<And>L fs si nd k tr y. rec L fs si nd k tr = Some y \<Longrightarrow>
         (\<not> nd \<longrightarrow> y = (Inr (), tr)) \<and>
         (nd \<longrightarrow>
            (\<exists>err j. k \<le> j \<and> sleep (L j) si = Inl err \<and>
               y = (Inl (SleepError err), tr @ polling fs si k j @ snd (poll fs j))) \<or>
            (\<exists>n\<ge>k. (\<forall>r\<in>set fs. done_at r n) \<and>
               (\<forall>j. k \<le> j \<and> j < n \<longrightarrow> (\<exists>r\<in>set fs. \<not> done_at r j)) \<and>
               (\<forall>j. k \<le> j \<and> j \<le> n \<longrightarrow> sleep (L j) si = Inr ()) \<and>
               y = (Inr (), tr @ polling fs si k (Suc n))))"
    and body: "(if nd then
                 (case poll fs k of (not_done', evs) \<Rightarrow>
                    (case sleep (L k) si of
                       Inl err \<Rightarrow> Some (Inl (SleepError err), tr @ evs)
                     | Inr _ \<Rightarrow> rec L fs si not_done' (Suc k) (tr @ evs @ [Sleep si])))
               else Some (Inr (), tr)) = Some y"
  show "(\<not> nd \<longrightarrow> y = (Inr (), tr)) \<and> (nd \<longrightarrow> ?Rej k tr y \<or> ?Fin k tr y)"
  proof (intro conjI impI)
    assume "\<not> nd"
    with body show "y = (Inr (), tr)" by simp
  next
    assume nd: nd
    let ?tr' = "tr @ snd (poll fs k) @ [Sleep si]"
    from sleep_cases[of "L k" si] show "?Rej k tr y \<or> ?Fin k tr y"
    proof
      assume "\<exists>err. sleep (L k) si = Inl err"
      then obtain err where err: "sleep (L k) si = Inl err" ..
      with body nd have "y = (Inl (SleepError err), tr @ snd (poll fs k))"
        by (auto split: prod.splits)
      with err have "?Rej k tr y"
        by (intro exI[of _ err] exI[of _ k]) (simp add: polling_def)
      then show ?thesis ..
    next
      assume ok: "sleep (L k) si = Inr ()"
      with body nd have
        call: "rec L fs si (\<exists>r\<in>set fs. \<not> done_at r k) (Suc k) ?tr' = Some y"
        by (auto simp: poll_fst[symmetric] split: prod.splits)
      show ?thesis
      proof (cases "\<forall>r\<in>set fs. done_at r k")
        case True
        with IH[OF call] have "y = (Inr (), ?tr')" by simp
        with True ok have "?Fin k tr y"
          by (intro exI[of _ k]) (auto simp: polling_def)
        then show ?thesis ..
      next
        case False
        with IH[OF call] have "?Rej (Suc k) ?tr' y \<or> ?Fin (Suc k) ?tr' y" by simp
        then show ?thesis
        proof
          assume "?Rej (Suc k) ?tr' y"
          then obtain err j where j: "Suc k \<le> j" "sleep (L j) si = Inl err"
            "y = (Inl (SleepError err), ?tr' @ polling fs si (Suc k) j @ snd (poll fs j))"
            by blast
          from j(1) have "polling fs si k j = snd (poll fs k) @ [Sleep si] @ polling fs si (Suc k) j"
            by (intro polling_Cons) simp
          with j have "?Rej k tr y"
            by (intro exI[of _ err] exI[of _ j]) simp
          then show ?thesis ..
        next
          assume "?Fin (Suc k) ?tr' y"
          then obtain n where n: "Suc k \<le> n" "\<forall>r\<in>set fs. done_at r n"
            "\<forall>j. Suc k \<le> j \<and> j < n \<longrightarrow> (\<exists>r\<in>set fs. \<not> done_at r j)"
            "\<forall>j. Suc k \<le> j \<and> j \<le> n \<longrightarrow> sleep (L j) si = Inr ()"
            "y = (Inr (), ?tr' @ polling fs si (Suc k) (Suc n))"
            by blast
          have before: "\<forall>j. k \<le> j \<and> j < n \<longrightarrow> (\<exists>r\<in>set fs. \<not> done_at r j)"
          proof (intro allI impI)
            fix j assume "k \<le> j \<and> j < n"
            then have "j = k \<or> (Suc k \<le> j \<and> j < n)" by auto
            with False n(3) show "\<exists>r\<in>set fs. \<not> done_at r j" by blast
          qed
          have slept: "\<forall>j. k \<le> j \<and> j \<le> n \<longrightarrow> sleep (L j) si = Inr ()"
          proof (intro allI impI)
            fix j assume "k \<le> j \<and> j \<le> n"
            then have "j = k \<or> (Suc k \<le> j \<and> j \<le> n)" by auto
            with ok n(4) show "sleep (L j) si = Inr ()" by blast
          qed
          from n(1) have "polling fs si k (Suc n) =
              snd (poll fs k) @ [Sleep si] @ polling fs si (Suc k) (Suc n)"
            by (intro polling_Cons) simp
          with n(5) have "y = (Inr (), tr @ polling fs si k (Suc n))" by simp
          with n(1,2) before slept have "?Fin k tr y"
            by (intro exI[of _ n]) simp
          then show ?thesis ..
        qed
      qed
    qed
  qed
qed

lemma first_all_done:
  assumes "k \<le> m" "\<forall>r\<in>set fs. done_at r m"
  shows "\<exists>n. k \<le> n \<and> n \<le> m \<and> (\<forall>r\<in>set fs. done_at r n) \<and>
               (\<forall>j. k \<le> j \<and> j < n \<longrightarrow> (\<exists>r\<in>set fs. \<not> done_at r j))"
proof -
  let ?P = "\<lambda>n. k \<le> n \<and> (\<forall>r\<in>set fs. done_at r n)"
  have m: "?P m" using assms by simp
  then have "?P (Least ?P)" by (rule LeastI)
  moreover have "\<not> ?P j" if "j < Least ?P" for j
    using that by (rule not_less_Least)
  moreover have "Least ?P \<le> m" using m by (rule Least_le)
  ultimately show ?thesis
    by (intro exI[of _ "Least ?P"]) auto
qed


subsection \<open>The collection pass\<close>

lemma fetch_all_ok:
  "\<forall>r\<in>set fs. stored r = None \<Longrightarrow> fetch fs tr = (Inr (), tr @ map Result fs)"
  by (induction fs arbitrary: tr) (simp_all add: result_def)

lemma fetch_first_failure:
  assumes "\<forall>x\<in>set ok. stored x = None" "stored r = Some e"
  shows "fetch (ok @ r # rest) tr = (Inl (TaskError e), tr @ map Result ok @ [Result r])"
  using assms by (induction ok arbitrary: tr) (simp_all add: result_def)

lemma fetch_shape:
  "\<exists>m\<le>length fs. snd (fetch fs tr) = tr @ map Result (take m fs) \<and>
                   (\<forall>err. fst (fetch fs tr) \<noteq> Inl (SleepError err))"
proof (induction fs arbitrary: tr)
  case Nil
  then show ?case by simp
next
  case (Cons r rs)
  show ?case
  proof (cases "stored r")
    case None
    from Cons[of "tr @ [Result r]"] obtain m where
      "m \<le> length rs" "snd (fetch rs (tr @ [Result r])) = (tr @ [Result r]) @ map Result (take m rs)"
      "\<forall>err. fst (fetch rs (tr @ [Result r])) \<noteq> Inl (SleepError err)"
      by blast
    with None show ?thesis
      by (intro exI[of _ "Suc m"]) (simp add: result_def)
  next
    case (Some e)
    then show ?thesis
      by (intro exI[of _ "Suc 0"]) (simp add: result_def)
  qed
qed

lemma fetch_cases:
  "(\<forall>x\<in>set fs. stored x = None) \<or>
   (\<exists>ok r rest e. fs = ok @ r # rest \<and> (\<forall>x\<in>set ok. stored x = None) \<and> stored r = Some e)"
proof (cases "\<exists>x\<in>set fs. stored x \<noteq> None")
  case True
  from split_list_first_prop[OF this] obtain ok r rest where
    "fs = ok @ r # rest" "stored r \<noteq> None" "\<forall>x\<in>set ok. \<not> stored x \<noteq> None"
    by blast
  then show ?thesis by auto
next
  case False
  then show ?thesis by simp
qed

subsection \<open>Whole runs\<close>

lemma wait_for_all_runs:
  assumes "\<forall>j\<le>n. sleep (L j) si = Inr ()" "\<forall>r\<in>set fs. done_at r n"
    and "\<forall>j<n. \<exists>r\<in>set fs. \<not> done_at r j"
  shows "wait_for_all L fs si = Some (fetch fs (polling fs si 0 (Suc n)))"
proof -
  have "while_not_done L fs si True 0 [] = Some (Inr (), [] @ polling fs si 0 (Suc n))"
    using assms by (intro while_runs) auto
  then show ?thesis
    by (simp add: wait_for_all_def)
qed


lemma wait_for_all_shape:
  assumes "wait_for_all L fs si = Some (res, tr)"
  shows "(\<exists>err j. sleep (L j) si = Inl err \<and> res = Inl (SleepError err) \<and>
            tr = polling fs si 0 j @ snd (poll fs j)) \<or>
         (\<exists>n. (\<forall>r\<in>set fs. done_at r n) \<and> (\<forall>j<n. \<exists>r\<in>set fs. \<not> done_at r j) \<and>
            (\<forall>j\<le>n. sleep (L j) si = Inr ()) \<and>
            (res, tr) = fetch fs (polling fs si 0 (Suc n)))"
proof -
  from assms obtain z where z: "while_not_done L fs si True 0 [] = Some z"
    by (auto simp: wait_for_all_def split: option.splits)
  from while_Some_shape[OF z] have
    "(\<exists>err j. sleep (L j) si = Inl err \<and>
        z = (Inl (SleepError err), polling fs si 0 j @ snd (poll fs j))) \<or>
     (\<exists>n. (\<forall>r\<in>set fs. done_at r n) \<and> (\<forall>j<n. \<exists>r\<in>set fs. \<not> done_at r j) \<and>
        (\<forall>j\<le>n. sleep (L j) si = Inr ()) \<and> z = (Inr (), polling fs si 0 (Suc n)))"
    by simp
  then show ?thesis
  proof
    assume "\<exists>err j. sleep (L j) si = Inl err \<and>
        z = (Inl (SleepError err), polling fs si 0 j @ snd (poll fs j))"
    then obtain err j where "sleep (L j) si = Inl err"
      "z = (Inl (SleepError err), polling fs si 0 j @ snd (poll fs j))"
      by blast
    with assms z show ?thesis
      by (auto simp: wait_for_all_def)
  next
    assume "\<exists>n. (\<forall>r\<in>set fs. done_at r n) \<and> (\<forall>j<n. \<exists>r\<in>set fs. \<not> done_at r j) \<and>
        (\<forall>j\<le>n. sleep (L j) si = Inr ()) \<and> z = (Inr (), polling fs si 0 (Suc n))"
    then obtain n where n: "\<forall>r\<in>set fs. done_at r n" "\<forall>j<n. \<exists>r\<in>set fs. \<not> done_at r j"
      "\<forall>j\<le>n. sleep (L j) si = Inr ()" "z = (Inr (), polling fs si 0 (Suc n))"
      by blast
    with assms z have "(res, tr) = fetch fs (polling fs si 0 (Suc n))"
      by (simp add: wait_for_all_def)
    with n(1-3) show ?thesis
      by blast
  qed
qed

lemma ended_without_sleep_error:
  assumes "wait_for_all L fs si = Some (res, tr)" "\<forall>err. res \<noteq> Inl (SleepError err)"
  shows "\<exists>n m. (\<forall>r\<in>set fs. done_at r n) \<and> (\<forall>j<n. \<exists>r\<in>set fs. \<not> done_at r j) \<and>
               tr = polling fs si 0 (Suc n) @ map Result (take m fs)"
proof -
  from wait_for_all_shape[OF assms(1)] assms(2) obtain n where
    n: "\<forall>r\<in>set fs. done_at r n" "\<forall>j<n. \<exists>r\<in>set fs. \<not> done_at r j" and
    y: "(res, tr) = fetch fs (polling fs si 0 (Suc n))"
    by blast
  from fetch_shape[of fs "polling fs si 0 (Suc n)"] y obtain m where
    "tr = polling fs si 0 (Suc n) @ map Result (take m fs)"
    by (metis snd_conv)
  with n show ?thesis
    by blast
qed


lemma first_failure_propagates:
  assumes "\<forall>j\<le>n. sleep (L j) si = Inr ()" "\<forall>x\<in>set fs. done_at x n"
    and "fs = ok @ r # rest" "\<forall>x\<in>set ok. stored x = None" "stored r = Some e"
  shows "\<exists>pre. wait_for_all L fs si =
           Some (Inl (TaskError e),
                 pre @ map (\<lambda>x. Done x True) fs @ Sleep si # map Result ok @ [Result r])"
proof -
  from first_all_done[OF _ assms(2), of 0] obtain n' where
    n': "n' \<le> n" "\<forall>x\<in>set fs. done_at x n'" "\<forall>j<n'. \<exists>x\<in>set fs. \<not> done_at x j"
    by auto
  from n'(1) assms(1) have acc: "\<forall>j\<le>n'. sleep (L j) si = Inr ()" by simp
  have "fetch fs (polling fs si 0 (Suc n')) =
          (Inl (TaskError e), polling fs si 0 (Suc n') @ map Result ok @ [Result r])"
    unfolding assms(3) using assms(4,5) by (rule fetch_first_failure)
  then have "wait_for_all L fs si = Some (Inl (TaskError e),
      polling fs si 0 n' @ map (\<lambda>x. Done x True) fs @ Sleep si # map Result ok @ [Result r])"
    using wait_for_all_runs[OF acc n'(2,3)] by (simp add: polling_last_cycle[OF n'(2)])
  then show ?thesis ..
qed

lemma raised_in_run:
  assumes "wait_for_all L fs si = Some (res, tr)" "Result r \<in> set tr" "stored r = Some e"
  shows "res = Inl (TaskError e) \<and>
         (\<exists>pre ok. tr = pre @ map (\<lambda>x. Done x True) fs @ Sleep si # map Result ok @ [Result r] \<and>
            (\<forall>ev\<in>set pre. \<forall>x. ev \<noteq> Result x) \<and> (\<forall>x\<in>set ok. stored x = None)) \<and>
         length (filter raising tr) = 1"
proof -
  have "\<not> (\<exists>j. tr = polling fs si 0 j @ snd (poll fs j))"
  proof
    assume "\<exists>j. tr = polling fs si 0 j @ snd (poll fs j)"
    then obtain j where "tr = polling fs si 0 j @ snd (poll fs j)" ..
    with assms(2) have "Result r \<in> set (polling fs si 0 j) \<or> Result r \<in> set (snd (poll fs j))"
      by simp
    with polling_no_Result[of "Result r" fs si 0 j r] poll_no_Result[of "Result r" fs j r]
    show False by blast
  qed
  with wait_for_all_shape[OF assms(1)] obtain n where
    n: "\<forall>x\<in>set fs. done_at x n" and
    y: "(res, tr) = fetch fs (polling fs si 0 (Suc n))"
    by blast
  let ?pre = "polling fs si 0 n"
  let ?p = "polling fs si 0 (Suc n)"
  have p: "?p = ?pre @ map (\<lambda>x. Done x True) fs @ [Sleep si]"
    by (rule polling_last_cycle[OF n])
  have pre: "\<forall>ev\<in>set ?pre. \<forall>x. ev \<noteq> Result x"
    using polling_no_Result by blast
  from fetch_cases[of fs] show ?thesis
  proof
    assume ok: "\<forall>x\<in>set fs. stored x = None"
    then have "tr = ?p @ map Result fs"
      using y by (simp add: fetch_all_ok)
    with assms(2) polling_no_Result[of "Result r" fs si 0 "Suc n" r] have "r \<in> set fs"
      by auto
    with ok assms(3) show ?thesis by simp
  next
    assume "\<exists>ok r rest e. fs = ok @ r # rest \<and> (\<forall>x\<in>set ok. stored x = None) \<and> stored r = Some e"
    then obtain ok r' rest e' where
      fs: "fs = ok @ r' # rest" and ok: "\<forall>x\<in>set ok. stored x = None" and r': "stored r' = Some e'"
      by blast
    have "fetch fs ?p = (Inl (TaskError e'), ?p @ map Result ok @ [Result r'])"
      unfolding fs using ok r' by (rule fetch_first_failure)
    with y have res: "res = Inl (TaskError e')" and tr: "tr = ?p @ map Result ok @ [Result r']"
      by simp_all
    from assms(2) tr polling_no_Result[of "Result r" fs si 0 "Suc n" r] have "r \<in> set ok \<or> r = r'"
      by auto
    with ok assms(3) have eq: "r = r'" by auto
    with r' assms(3) have e: "e' = e" by simp
    have "filter raising (map Result ok) = []"
      using ok by (auto simp: filter_empty_conv)
    moreover have "filter raising (map (\<lambda>x. Done x True) fs) = []"
      by (auto simp: filter_empty_conv)
    ultimately have once: "length (filter raising tr) = 1"
      using r' by (simp add: tr p polling_not_raising)
    have "tr = ?pre @ map (\<lambda>x. Done x True) fs @ Sleep si # map Result ok @ [Result r]"
      by (simp add: tr p eq)
    with pre ok have "\<exists>pre ok.
        tr = pre @ map (\<lambda>x. Done x True) fs @ Sleep si # map Result ok @ [Result r] \<and>
        (\<forall>ev\<in>set pre. \<forall>x. ev \<noteq> Result x) \<and> (\<forall>x\<in>set ok. stored x = None)"
      by blast
    with res e once show ?thesis by simp
  qed
qed

subsection \<open>Some runs\<close>

lemma steady_accepts: "sleep (steady 4000000000 k) 10 = Inr ()"
  by (simp add: sleep_def steady_def)

lemma run_late_early:
  "wait_for_all (steady 4000000000) [completes_at 1 (None :: string option), completes_at 0 None] 10 =
     Some (Inr (),
       [Done (completes_at 1 None) False, Sleep 10,
        Done (completes_at 1 None) True, Done (completes_at 0 None) True, Sleep 10,
        Result (completes_at 1 None), Result (completes_at 0 None)])"
proof -
  let ?fs = "[completes_at 1 (None :: string option), completes_at 0 None]"
  have run: "wait_for_all (steady 4000000000) ?fs 10 =
      Some (fetch ?fs (polling ?fs 10 0 (Suc (Suc 0))))"
    by (rule wait_for_all_runs) (simp_all add: steady_accepts completes_at_def)
  have cycles: "polling ?fs 10 0 (Suc (Suc 0)) =
      [Done (completes_at 1 None) False, Sleep 10,
       Done (completes_at 1 None) True, Done (completes_at 0 None) True, Sleep 10]"
    by (simp add: polling_def completes_at_def)
  have collect: "fetch ?fs tr =
      (Inr (), tr @ [Result (completes_at 1 None), Result (completes_at 0 None)])" for tr
    by (simp add: result_def completes_at_def)
  show ?thesis
    by (simp only: run cycles collect append_Cons append_Nil)
qed

lemma run_with_failures:
  "wait_for_all (steady 4000000000)
     [completes_at 1 None, completes_at 0 (Some ''boom''), completes_at 0 (Some ''bang'')] 10 =
     Some (Inl (TaskError ''boom''),
       [Done (completes_at 1 None) False, Sleep 10,
        Done (completes_at 1 None) True, Done (completes_at 0 (Some ''boom'')) True,
        Done (completes_at 0 (Some ''bang'')) True, Sleep 10,
        Result (completes_at 1 None), Result (completes_at 0 (Some ''boom''))])"
proof -
  let ?fs = "[completes_at 1 None, completes_at 0 (Some ''boom''), completes_at 0 (Some ''bang'')]"
  have run: "wait_for_all (steady 4000000000) ?fs 10 =
      Some (fetch ?fs (polling ?fs 10 0 (Suc (Suc 0))))"
    by (rule wait_for_all_runs) (simp_all add: steady_accepts completes_at_def)
  have cycles: "polling ?fs 10 0 (Suc (Suc 0)) =
      [Done (completes_at 1 None) False, Sleep 10,
       Done (completes_at 1 None) True, Done (completes_at 0 (Some ''boom'')) True,
       Done (completes_at 0 (Some ''bang'')) True, Sleep 10]"
    by (simp add: polling_def completes_at_def)
  have collect: "fetch ?fs tr =
      (Inl (TaskError ''boom''),
       tr @ [Result (completes_at 1 None), Result (completes_at 0 (Some ''boom''))])" for tr
    by (simp add: result_def completes_at_def)
  show ?thesis
    by (simp only: run cycles collect append_Cons append_Nil)
qed



subsection \<open>The claims about \<^verbatim>\<open>wait_for_all\<close>\<close>

text \<open>
  C1. For every list of handles: a call that returns (or that ends with the stored
  exception of a task) has, as its last calls of \<^verbatim>\<open>done()\<close>, one pass over the whole list
  in which every handle answered true, in a cycle \<open>n\<close> in which every handle is done; after
  that pass come only the sleep of that cycle and calls of \<^verbatim>\<open>result()\<close>. So it does not
  return while the last answer of some handle is that it is incomplete.
\<close>

theorem wait_for_all_returns_after_all_done:
  assumes "wait_for_all L fs si = Some (res, tr)" and "\<forall>err. res \<noteq> Inl (SleepError err)"
  shows "\<exists>n pre m. (\<forall>r\<in>set fs. done_at r n) \<and>
           tr = pre @ map (\<lambda>r. Done r True) fs @ Sleep si # map Result (take m fs)"
proof -
  from ended_without_sleep_error[OF assms] obtain n m where
    n: "\<forall>r\<in>set fs. done_at r n" and
    tr: "tr = polling fs si 0 (Suc n) @ map Result (take m fs)"
    by blast
  have "tr = polling fs si 0 n @ map (\<lambda>r. Done r True) fs @ Sleep si # map Result (take m fs)"
    by (simp add: tr polling_last_cycle[OF n])
  with n show ?thesis
    by blast
qed

theorem wait_for_all_returns_after_all_done_witness:
  "\<exists>n pre m. (\<forall>r\<in>set [completes_at 1 (None :: string option), completes_at 0 None]. done_at r n) \<and>
     [Done (completes_at 1 (None :: string option)) False, Sleep 10,
      Done (completes_at 1 None) True, Done (completes_at 0 None) True, Sleep 10,
      Result (completes_at 1 None), Result (completes_at 0 None)] =
     pre @ map (\<lambda>r. Done r True) [completes_at 1 None, completes_at 0 None] @
       Sleep 10 # map Result (take m [completes_at 1 None, completes_at 0 None])"
  by (rule wait_for_all_returns_after_all_done[OF run_late_early]) simp

text \<open>
  C2. Whenever, in a run, \<^verbatim>\<open>result()\<close> is called on a handle \<open>r\<close> that stores an exception
  \<open>e\<close>, the call of \<^verbatim>\<open>wait_for_all\<close> ends with that exception; this call of \<^verbatim>\<open>result()\<close> is the
  last event and the only one of the run in which an exception of a task comes up; the
  handles asked before it in the collection pass store none; the collection pass follows
  a pass in which every handle answered that it is done, and no \<^verbatim>\<open>result()\<close> is called
  before that. And it happens: when \<^verbatim>\<open>time.sleep\<close> accepts the interval in the cycles \<open>0\<close>
  to \<open>n\<close>, every handle is done in cycle \<open>n\<close> and some handle stores an exception, the call
  ends with the stored exception of a handle on which \<^verbatim>\<open>result()\<close> was called.
\<close>

theorem wait_for_all_propagates_failure:
  "(wait_for_all L fs si = Some (res, tr) \<and> Result r \<in> set tr \<and> stored r = Some e \<longrightarrow>
      res = Inl (TaskError e) \<and>
      (\<exists>pre ok. tr = pre @ map (\<lambda>x. Done x True) fs @ Sleep si # map Result ok @ [Result r] \<and>
         (\<forall>ev\<in>set pre. \<forall>x. ev \<noteq> Result x) \<and> (\<forall>x\<in>set ok. stored x = None)) \<and>
      length (filter raising tr) = 1) \<and>
   ((\<forall>j\<le>n. sleep (L j) si = Inr ()) \<and> (\<forall>x\<in>set fs. done_at x n) \<and>
    (\<exists>x\<in>set fs. stored x \<noteq> None) \<longrightarrow>
      (\<exists>r' e' tr'. wait_for_all L fs si = Some (Inl (TaskError e'), tr') \<and>
         Result r' \<in> set tr' \<and> stored r' = Some e'))"
proof (rule conjI; rule impI)
  assume "wait_for_all L fs si = Some (res, tr) \<and> Result r \<in> set tr \<and> stored r = Some e"
  then show "res = Inl (TaskError e) \<and>
      (\<exists>pre ok. tr = pre @ map (\<lambda>x. Done x True) fs @ Sleep si # map Result ok @ [Result r] \<and>
         (\<forall>ev\<in>set pre. \<forall>x. ev \<noteq> Result x) \<and> (\<forall>x\<in>set ok. stored x = None)) \<and>
      length (filter raising tr) = 1"
    using raised_in_run[of L fs si res tr r e] by blast
next
  assume a: "(\<forall>j\<le>n. sleep (L j) si = Inr ()) \<and> (\<forall>x\<in>set fs. done_at x n) \<and>
    (\<exists>x\<in>set fs. stored x \<noteq> None)"
  with fetch_cases[of fs] obtain ok r' rest e' where
    fs: "fs = ok @ r' # rest" and ok: "\<forall>x\<in>set ok. stored x = None" and r': "stored r' = Some e'"
    by auto
  from a first_failure_propagates[OF _ _ fs ok r', of n L si] obtain pre where
    "wait_for_all L fs si = Some (Inl (TaskError e'),
       pre @ map (\<lambda>x. Done x True) fs @ Sleep si # map Result ok @ [Result r'])"
    by blast
  with r' show "\<exists>r' e' tr'. wait_for_all L fs si = Some (Inl (TaskError e'), tr') \<and>
         Result r' \<in> set tr' \<and> stored r' = Some e'"
    by (intro exI[of _ r'] exI[of _ e']
        exI[of _ "pre @ map (\<lambda>x. Done x True) fs @ Sleep si # map Result ok @ [Result r']"]) simp
qed

theorem wait_for_all_propagates_failure_witness:
  "wait_for_all (steady 4000000000)
     [completes_at 1 None, completes_at 0 (Some ''boom''), completes_at 0 (Some ''bang'')] 10 =
     Some (Inl (TaskError ''boom''),
       [Done (completes_at 1 None) False, Sleep 10,
        Done (completes_at 1 None) True, Done (completes_at 0 (Some ''boom'')) True,
        Done (completes_at 0 (Some ''bang'')) True, Sleep 10,
        Result (completes_at 1 None), Result (completes_at 0 (Some ''boom''))]) \<and>
   length (filter raising
       [Done (completes_at 1 None) False, Sleep 10,
        Done (completes_at 1 None) True, Done (completes_at 0 (Some ''boom'')) True,
        Done (completes_at 0 (Some ''bang'')) True, Sleep 10,
        Result (completes_at 1 None), Result (completes_at 0 (Some ''boom''))]) = 1"
proof -
  let ?fs = "[completes_at 1 None, completes_at 0 (Some ''boom''), completes_at 0 (Some ''bang'')]"
  let ?tr = "[Done (completes_at 1 None) False, Sleep 10,
        Done (completes_at 1 None) True, Done (completes_at 0 (Some ''boom'')) True,
        Done (completes_at 0 (Some ''bang'')) True, Sleep 10,
        Result (completes_at 1 None), Result (completes_at 0 (Some ''boom''))]"
  have "Result (completes_at 0 (Some ''boom'')) \<in> set ?tr"
    by simp
  moreover have "stored (completes_at 0 (Some ''boom'')) = Some ''boom''"
    by (simp add: completes_at_def)
  ultimately have "length (filter raising ?tr) = 1"
    using run_with_failures
      wait_for_all_propagates_failure[of "steady 4000000000" ?fs 10 "Inl (TaskError ''boom'')" ?tr
        "completes_at 0 (Some ''boom'')" "''boom''"]
    by blast
  with run_with_failures show ?thesis
    by (intro conjI)
qed







text \<open>
  C9. Every call that returns or ends with the exception of a task has slept the full
  interval before its first call of \<^verbatim>\<open>result()\<close>, so before it returns. When \<^verbatim>\<open>time.sleep\<close>
  accepts the interval in the first cycle, this is so even when every handle is done at
  the time of the call, where the run is one pass over the handles, one sleep and the
  collection pass, and even for the empty list, where the run is one sleep.
\<close>

theorem wait_for_all_sleeps_first:
  "(wait_for_all L fs si = Some (res, tr) \<and> (\<forall>err. res \<noteq> Inl (SleepError err)) \<longrightarrow>
      (\<exists>pre m. tr = pre @ Sleep si # map Result (take m fs))) \<and>
   (sleep (L 0) si = Inr () \<and> (\<forall>r\<in>set fs. done_at r 0) \<longrightarrow>
      (\<exists>res' m. wait_for_all L fs si =
         Some (res', map (\<lambda>r. Done r True) fs @ Sleep si # map Result (take m fs)))) \<and>
   (sleep (L 0) si = Inr () \<longrightarrow> wait_for_all L [] si = Some (Inr (), [Sleep si]))"
proof (intro conjI impI)
  assume a: "wait_for_all L fs si = Some (res, tr) \<and> (\<forall>err. res \<noteq> Inl (SleepError err))"
  with ended_without_sleep_error[of L fs si res tr] obtain n m where
    n: "\<forall>r\<in>set fs. done_at r n" and
    tr: "tr = polling fs si 0 (Suc n) @ map Result (take m fs)"
    by blast
  have "tr = (polling fs si 0 n @ map (\<lambda>r. Done r True) fs) @ Sleep si # map Result (take m fs)"
    by (simp add: tr polling_last_cycle[OF n])
  then show "\<exists>pre m. tr = pre @ Sleep si # map Result (take m fs)"
    by blast
next
  assume a: "sleep (L 0) si = Inr () \<and> (\<forall>r\<in>set fs. done_at r 0)"
  then have run: "wait_for_all L fs si = Some (fetch fs (polling fs si 0 (Suc 0)))"
    by (intro wait_for_all_runs) auto
  from fetch_shape[of fs "polling fs si 0 (Suc 0)"] obtain m where
    "snd (fetch fs (polling fs si 0 (Suc 0))) = polling fs si 0 (Suc 0) @ map Result (take m fs)"
    by blast
  moreover have "polling fs si 0 (Suc 0) = map (\<lambda>r. Done r True) fs @ [Sleep si]"
    using a polling_last_cycle[of fs 0 si] by (simp add: polling_def)
  ultimately have "wait_for_all L fs si =
      Some (fst (fetch fs (polling fs si 0 (Suc 0))),
            map (\<lambda>r. Done r True) fs @ Sleep si # map Result (take m fs))"
    using run by (simp add: prod_eq_iff)
  then show "\<exists>res' m. wait_for_all L fs si =
         Some (res', map (\<lambda>r. Done r True) fs @ Sleep si # map Result (take m fs))"
    by blast
next
  assume "sleep (L 0) si = Inr ()"
  then have "wait_for_all L [] si = Some (fetch [] (polling [] si 0 (Suc 0)))"
    by (intro wait_for_all_runs) auto
  then show "wait_for_all L [] si = Some (Inr (), [Sleep si])"
    by (simp add: polling_def)
qed

theorem wait_for_all_sleeps_first_witness:
  "wait_for_all (steady 4000000000) ([] :: string future list) 10 = Some (Inr (), [Sleep 10]) \<and>
   (\<exists>res' m. wait_for_all (steady 4000000000) [completes_at 0 (None :: string option)] 10 =
      Some (res', [Done (completes_at 0 None) True, Sleep 10] @
                  map Result (take m [completes_at 0 None])))"
proof -
  have "\<forall>r\<in>set [completes_at 0 (None :: string option)]. done_at r 0"
    by (simp add: completes_at_def)
  then show ?thesis
    using steady_accepts[of 0]
      wait_for_all_sleeps_first[of "steady 4000000000" "[] :: string future list" 10]
      wait_for_all_sleeps_first[of "steady 4000000000" "[completes_at 0 (None :: string option)]" 10]
    by simp blast
qed

end
